theory Spec2Isabelle
  imports Complex_Main
begin

section \<open>JavaScript values\<close>

text \<open>
  The limiter stores whatever the caller hands it, and two of its tests are JavaScript
  truthiness tests (\<^verbatim>\<open>if(notParseObject)\<close>, \<^verbatim>\<open>if(self._error)\<close>), so values are modelled
  with the falsy ones told apart. \<open>ParseObject i\<close> is an instance of \<^verbatim>\<open>Parse.Object\<close> with
  identity \<open>i\<close>; \<open>JObject i\<close> is any other object (an error object, an array of errors);
  \<open>JTypeError\<close> is the error the engine throws where a property of \<^verbatim>\<open>undefined\<close> is
  read.
\<close>

datatype jsval =
    ParseObject nat
  | JUndefined
  | JNull
  | JBool bool
  | JNum int
  | JStr string
  | JObject nat
  | JTypeError

fun truthy :: "jsval \<Rightarrow> bool" where
  "truthy (ParseObject _) = True"
| "truthy JUndefined = False"
| "truthy JNull = False"
| "truthy (JBool b) = b"
| "truthy (JNum n) = (n \<noteq> 0)"
| "truthy (JStr s) = (s \<noteq> [])"
| "truthy (JObject _) = True"
| "truthy JTypeError = True"

text \<open>\<^verbatim>\<open>object instanceof Parse.Object\<close>\<close>

fun instanceofParseObject :: "jsval \<Rightarrow> bool" where
  "instanceofParseObject (ParseObject _) = True"
| "instanceofParseObject _ = False"

text \<open>
  The argument of \<^verbatim>\<open>saveAll\<close>: an array, or something else. For a value that is not an
  array, the list is what underscore's \<^verbatim>\<open>_.find\<close> enumerates on it (the characters of a
  string, the values of an object, nothing for \<^verbatim>\<open>null\<close>).
\<close>

datatype jsarg = Array "jsval list" | NotArray "jsval list"

fun isArray :: "jsarg \<Rightarrow> bool" where
  "isArray (Array _) = True"
| "isArray (NotArray _) = False"

fun elements :: "jsarg \<Rightarrow> jsval list" where
  "elements (Array xs) = xs"
| "elements (NotArray xs) = xs"

text \<open>What a call can throw: \<^verbatim>\<open>new Error(message)\<close>, or the engine's TypeError.\<close>

datatype exn = Error string | TypeError

section \<open>The instance and its environment\<close>

text \<open>
  A deferred created by \<^verbatim>\<open>new Parse.Promise()\<close> is pending until it is resolved or
  rejected, once.
\<close>

datatype pstate = Pending | Resolved | Rejected jsval

text \<open>
  One call of \<^verbatim>\<open>saveInBatches(toSave).fail(errHandler)\<close>: the sub-batches handed to
  \<^verbatim>\<open>Parse.Object.saveAll\<close>; whether the last-batch continuation
  \<^verbatim>\<open>savePromise.then(function() { finalizedPromise.resolve(); })\<close> was attached;
  whether the join of the sub-batches (\<^verbatim>\<open>Parse.Promise.when\<close>) has ended; and the state
  of the promise that \<^verbatim>\<open>fail\<close> made, which is what \<^verbatim>\<open>savePromise\<close> refers to.
\<close>

record dispatch =
  sent :: "jsval list list"
  notify :: bool
  joined :: bool
  promise :: pstate

text \<open>
  A promise that \<^verbatim>\<open>finalize\<close> made with \<^verbatim>\<open>savePromise.then(...)\<close>: the dispatch whose
  promise it is chained to, and its own state.
\<close>

record chained =
  source :: nat
  cstate :: pstate

text \<open>
  The fields up to \<open>savePromise\<close> are the properties of \<^verbatim>\<open>self\<close> and the variables
  the closures share. \<open>killswitch\<close> is the property \<^verbatim>\<open>self.killswitch\<close> that
  \<^verbatim>\<open>rateLimiter\<close> reads: no statement assigns it (the flag that \<^verbatim>\<open>errHandler\<close> sets is
  \<^verbatim>\<open>self._killSwitch\<close>), so it is \<^verbatim>\<open>undefined\<close>, which is falsy. \<open>error\<close> is
  \<^verbatim>\<open>self._error\<close>, \<^verbatim>\<open>undefined\<close> until assigned.

  \<open>maxRate\<close> is a natural number: the constructor is documented to take the number
  of objects to save per second.

  The rest is the environment: \<open>aplus\<close> says whether the promise library runs in its
  Promises/A+ mode (where \<^verbatim>\<open>p.fail(h)\<close> is resolved when \<^verbatim>\<open>h\<close> returns and rejected
  with what \<^verbatim>\<open>h\<close> throws; in the older mode it is rejected with what \<^verbatim>\<open>h\<close>
  returned, and an exception of \<^verbatim>\<open>h\<close> leaves it pending); \<open>deferreds\<close> are the deferreds
  created so far, \<open>dispatches\<close> the dispatches issued so far, \<open>thens\<close> the promises
  chained to them by \<^verbatim>\<open>finalize\<close>, \<open>pending\<close> the timeout handles that are scheduled and
  have neither fired nor been cleared.
\<close>

record limiter =
  maxRate :: nat
  killSwitch :: bool
  killswitch :: bool
  saveQueue :: "jsval list"
  error :: jsval
  finalizedPromise :: "nat option"
  toSave :: "jsval list option"
  timer :: "nat option"
  savePromise :: "nat option"
  aplus :: bool
  deferreds :: "pstate list"
  dispatches :: "dispatch list"
  thens :: "chained list"
  pending :: "nat list"
  nextHandle :: nat

text \<open>\<^verbatim>\<open>new ParseRateLimiter(maxRate)\<close>\<close>

definition ParseRateLimiter :: "bool \<Rightarrow> nat \<Rightarrow> limiter" where
  "ParseRateLimiter ap r =
     \<lparr>maxRate = r, killSwitch = False, killswitch = False, saveQueue = [],
      error = JUndefined, finalizedPromise = None, toSave = None, timer = None,
      savePromise = None, aplus = ap, deferreds = [], dispatches = [], thens = [],
      pending = [], nextHandle = 1\<rparr>"

subsection \<open>Timers and deferreds\<close>

definition setTimeout :: "limiter \<Rightarrow> nat \<times> limiter" where
  "setTimeout s =
     (nextHandle s,
      s\<lparr>pending := pending s @ [nextHandle s], nextHandle := Suc (nextHandle s)\<rparr>)"

fun clearTimeout :: "nat option \<Rightarrow> limiter \<Rightarrow> limiter" where
  "clearTimeout None s = s"
| "clearTimeout (Some h) s = s\<lparr>pending := removeAll h (pending s)\<rparr>"

text \<open>
  \<^verbatim>\<open>Parse.Promise\<close>'s \<^verbatim>\<open>reject\<close> and \<^verbatim>\<open>resolve\<close> settle a pending promise; on one
  that is already settled they throw a string and change nothing. A call that throws
  is \<open>Inl\<close> of the value thrown, one that returns is \<open>Inr ()\<close>.
\<close>

definition deferred :: "limiter \<Rightarrow> nat \<Rightarrow> pstate" where
  "deferred s p = (if p < length (deferreds s) then deferreds s ! p else Pending)"

definition alreadySettled :: "string \<Rightarrow> pstate \<Rightarrow> jsval" where
  "alreadySettled verb st =
     JStr (''A promise was '' @ verb @ '' even though it had already been '' @
           (if st = Resolved then ''resolved'' else ''rejected'') @ ''.'')"

definition reject :: "nat \<Rightarrow> jsval \<Rightarrow> limiter \<Rightarrow> (jsval + unit) \<times> limiter" where
  "reject p err s =
     (if deferred s p = Pending
      then (Inr (), s\<lparr>deferreds := (deferreds s)[p := Rejected err]\<rparr>)
      else (Inl (alreadySettled ''rejected'' (deferred s p)), s))"

definition resolve :: "nat \<Rightarrow> limiter \<Rightarrow> (jsval + unit) \<times> limiter" where
  "resolve p s =
     (if deferred s p = Pending
      then (Inr (), s\<lparr>deferreds := (deferreds s)[p := Resolved]\<rparr>)
      else (Inl (alreadySettled ''resolved'' (deferred s p)), s))"

section \<open>The closures of the constructor\<close>

subsection \<open>errHandler\<close>

definition errHandler :: "jsval \<Rightarrow> limiter \<Rightarrow> (jsval + unit) \<times> limiter" where
  "errHandler err s =
     (if killSwitch s then (Inr (), s)
      else
        let s1 = clearTimeout (timer s) s;
            s2 = s1\<lparr>killSwitch := True\<rparr>;
            s3 = s2\<lparr>saveQueue := []\<rparr>
        in case finalizedPromise s3 of
             Some p \<Rightarrow> reject p err s3
           | None \<Rightarrow> (Inr (), s3\<lparr>error := err\<rparr>))"

subsection \<open>saveInBatches\<close>

definition batchSize :: nat where
  "batchSize = 10"

text \<open>
  The loop of \<^verbatim>\<open>saveInBatches\<close>; \<open>promises\<close> collects, in order, the argument of each
  \<^verbatim>\<open>Parse.Object.saveAll(toSave)\<close>.
\<close>

function saveInBatches_loop :: "jsval list \<Rightarrow> jsval list list \<Rightarrow> jsval list list" where
  "saveInBatches_loop objects promises =
     (if objects \<noteq> []
      then saveInBatches_loop (drop batchSize objects) (promises @ [take batchSize objects])
      else promises)"
  by pat_completeness auto
termination
  by (relation "measure (\<lambda>(objects, promises). length objects)") (auto simp: batchSize_def)

definition saveInBatches :: "jsval list \<Rightarrow> jsval list list" where
  "saveInBatches objects = saveInBatches_loop objects []"

subsection \<open>rateLimiter, the pacing tick\<close>

text \<open>
  Underscore's \<^verbatim>\<open>_.first(xs, n)\<close> and \<^verbatim>\<open>_.rest(xs, n)\<close> are \<open>take n xs\<close> and
  \<open>drop n xs\<close>. The calls of \<^verbatim>\<open>console.log\<close> are left out.

  \<open>issue\<close> is \<^verbatim>\<open>savePromise = saveInBatches(toSave).fail(errHandler)\<close>: the
  sub-batches go to the backend and \<^verbatim>\<open>savePromise\<close> refers to the new dispatch.
  \<^verbatim>\<open>Parse.Promise.when([])\<close> is resolved at once, so a dispatch of no sub-batch is
  joined and resolved from the start. \<open>attach\<close> is \<^verbatim>\<open>savePromise.then(...)\<close> in the branch of the
  last batch; it is reached only with a slice that is not empty, so with a dispatch in
  flight.
\<close>

definition issue :: "jsval list \<Rightarrow> limiter \<Rightarrow> limiter" where
  "issue objects s =
     s\<lparr>savePromise := Some (length (dispatches s)),
       dispatches := dispatches s @
         [\<lparr>sent = saveInBatches objects, notify = False,
           joined = (saveInBatches objects = []),
           promise = (if saveInBatches objects = [] then Resolved else Pending)\<rparr>]\<rparr>"

definition attach :: "nat \<Rightarrow> limiter \<Rightarrow> limiter" where
  "attach d s =
     (if d < length (dispatches s)
      then s\<lparr>dispatches := (dispatches s)[d := (dispatches s ! d)\<lparr>notify := True\<rparr>]\<rparr>
      else s)"

definition rateLimiter :: "limiter \<Rightarrow> limiter" where
  "rateLimiter s =
     (if killswitch s then s
      else if saveQueue s \<noteq> [] then
        let s1 = s\<lparr>toSave := Some (take (maxRate s) (saveQueue s))\<rparr>;
            s2 = s1\<lparr>saveQueue := drop (maxRate s1) (saveQueue s1)\<rparr>;
            s3 = issue (take (maxRate s) (saveQueue s)) s2
        in if saveQueue s3 = [] then
             let s4 = s3\<lparr>timer := None\<rparr>
             in (case finalizedPromise s4 of
                   Some p \<Rightarrow> attach (length (dispatches s)) s4
                 | None \<Rightarrow> s4)
           else
             let (h, s4) = setTimeout s3 in s4\<lparr>timer := Some h\<rparr>
      else if timer s \<noteq> None then s\<lparr>timer := None\<rparr>
      else s)"

subsection \<open>The public methods\<close>

definition startTimer :: "limiter \<Rightarrow> limiter" where
  "startTimer s =
     (case timer s of
        Some h \<Rightarrow> s
      | None \<Rightarrow> let (h, s1) = setTimeout s in s1\<lparr>timer := Some h\<rparr>)"

definition save :: "jsval \<Rightarrow> limiter \<Rightarrow> (exn + unit) \<times> limiter" where
  "save object s =
     (if \<not> instanceofParseObject object
      then (Inl (Error ''save must accept a Parse Object''), s)
      else (Inr (), s\<lparr>saveQueue := saveQueue s @ [object]\<rparr>))"

definition saveAll :: "jsarg \<Rightarrow> limiter \<Rightarrow> (exn + unit) \<times> limiter" where
  "saveAll objects s =
     (let inputError =
            (if \<not> isArray objects then Some ''saveAll must accept an array of objects''
             else None);
          notParseObject =
            find (\<lambda>object. \<not> instanceofParseObject object) (elements objects);
          inputError =
            (if (case notParseObject of None \<Rightarrow> False | Some v \<Rightarrow> truthy v)
             then Some ''Cannot process item that is not a Parse object''
             else inputError)
      in case inputError of
           Some message \<Rightarrow> (Inl (Error message), s)
         | None \<Rightarrow> (Inr (), s\<lparr>saveQueue := saveQueue s @ elements objects\<rparr>))"

text \<open>
  What \<^verbatim>\<open>finalize\<close> returns: \<^verbatim>\<open>Parse.Promise.error(self._error)\<close>; the new deferred;
  or \<^verbatim>\<open>savePromise.then(function() { return Parse.Promise.as(); })\<close>, a new promise
  chained to the promise of a dispatch (\<open>PThen d k\<close>: the dispatch and the new
  promise). Chained to a promise that is settled already, the new promise is settled at
  once: resolved if that one is resolved, rejected with the same value if it is
  rejected.
\<close>

datatype outcome = PError jsval | PDeferred nat | PThen nat nat

definition promiseOf :: "limiter \<Rightarrow> nat \<Rightarrow> pstate" where
  "promiseOf s d = (if d < length (dispatches s) then promise (dispatches s ! d) else Pending)"

definition finalize :: "limiter \<Rightarrow> (exn + outcome) \<times> limiter" where
  "finalize s =
     (if truthy (error s) then (Inr (PError (error s)), s)
      else if saveQueue s \<noteq> [] then
        let s1 = startTimer s;
            p = length (deferreds s1);
            s2 = s1\<lparr>deferreds := deferreds s1 @ [Pending], finalizedPromise := Some p\<rparr>
        in (Inr (PDeferred p), s2)
      else
        (case savePromise s of
           None \<Rightarrow> (Inl TypeError, s)
         | Some d \<Rightarrow>
             (Inr (PThen d (length (thens s))),
              s\<lparr>thens := thens s @ [\<lparr>source = d, cstate = promiseOf s d\<rparr>]\<rparr>)))"


section \<open>Events\<close>

text \<open>
  What can happen to an instance: a call of one of its methods (\<^verbatim>\<open>_startTimer\<close> is
  a property of the instance like the others), a scheduled timeout firing, and the
  join of a dispatch's sub-batches succeeding or failing with an error.
  A timeout fires only while it is scheduled, and a join ends only once.

  The callbacks of \<^verbatim>\<open>savePromise\<close> run in the order they were added: the last-batch
  continuation, added in the tick that made the promise, then the promises chained by
  \<^verbatim>\<open>finalize\<close>. The continuation runs \<^verbatim>\<open>finalizedPromise.resolve()\<close>, reading the
  variable \<^verbatim>\<open>finalizedPromise\<close> at that moment. In the library's older mode an
  exception of a callback ends the run, so the callbacks after it never run; in the A+
  mode each callback is run on its own.

  When the join succeeds, \<^verbatim>\<open>savePromise\<close> is resolved and its callbacks run. When the
  join fails, \<^verbatim>\<open>errHandler\<close> runs on the error. In the older mode \<^verbatim>\<open>savePromise\<close> is
  then rejected with what \<^verbatim>\<open>errHandler\<close> returned, which is \<^verbatim>\<open>undefined\<close>, and
  stays pending if \<^verbatim>\<open>errHandler\<close> threw. In the A+ mode \<^verbatim>\<open>savePromise\<close> is resolved
  when \<^verbatim>\<open>errHandler\<close> returned and rejected with what it threw. A rejection passes
  the continuation by and rejects the chained promises with the same value.
\<close>

datatype event =
    Save jsval
  | SaveAll jsarg
  | Finalize
  | StartTimer
  | Fire nat
  | BatchSaved nat
  | BatchFailed nat jsval

definition resolveFinalized :: "limiter \<Rightarrow> (jsval + unit) \<times> limiter" where
  "resolveFinalized s =
     (case finalizedPromise s of Some p \<Rightarrow> resolve p s | None \<Rightarrow> (Inl JTypeError, s))"

definition setJoined :: "nat \<Rightarrow> limiter \<Rightarrow> limiter" where
  "setJoined d s =
     s\<lparr>dispatches := (dispatches s)[d := (dispatches s ! d)\<lparr>joined := True\<rparr>]\<rparr>"

definition setPromise :: "nat \<Rightarrow> pstate \<Rightarrow> limiter \<Rightarrow> limiter" where
  "setPromise d v s =
     s\<lparr>dispatches := (dispatches s)[d := (dispatches s ! d)\<lparr>promise := v\<rparr>]\<rparr>"

definition runThens :: "nat \<Rightarrow> pstate \<Rightarrow> limiter \<Rightarrow> limiter" where
  "runThens d v s =
     s\<lparr>thens := map (\<lambda>c. if source c = d then c\<lparr>cstate := v\<rparr> else c) (thens s)\<rparr>"

definition savePromiseResolved :: "nat \<Rightarrow> limiter \<Rightarrow> limiter" where
  "savePromiseResolved d s =
     (let s1 = setPromise d Resolved s
      in if notify (dispatches s ! d) then
           let (r, s2) = resolveFinalized s1
           in (case r of
                 Inr u \<Rightarrow> runThens d Resolved s2
               | Inl v \<Rightarrow> if aplus s then runThens d Resolved s2 else s2)
         else runThens d Resolved s1)"

definition savePromiseRejected :: "nat \<Rightarrow> jsval \<Rightarrow> limiter \<Rightarrow> limiter" where
  "savePromiseRejected d v s = runThens d (Rejected v) (setPromise d (Rejected v) s)"

definition inFlight :: "nat \<Rightarrow> limiter \<Rightarrow> bool" where
  "inFlight d s = (d < length (dispatches s) \<and> \<not> joined (dispatches s ! d))"

fun step :: "event \<Rightarrow> limiter \<Rightarrow> limiter" where
  "step (Save object) s = snd (save object s)"
| "step (SaveAll objects) s = snd (saveAll objects s)"
| "step Finalize s = snd (finalize s)"
| "step StartTimer s = startTimer s"
| "step (Fire h) s =
     (if h \<in> set (pending s) then rateLimiter (s\<lparr>pending := removeAll h (pending s)\<rparr>)
      else s)"
| "step (BatchSaved d) s =
     (if inFlight d s then savePromiseResolved d (setJoined d s) else s)"
| "step (BatchFailed d err) s =
     (if inFlight d s then
        let (r, s1) = errHandler err (setJoined d s)
        in (case r of
              Inr u \<Rightarrow>
                if aplus s then savePromiseResolved d s1
                else savePromiseRejected d JUndefined s1
            | Inl v \<Rightarrow>
                if aplus s then savePromiseRejected d v s1 else s1)
      else s)"

definition run :: "event list \<Rightarrow> limiter \<Rightarrow> limiter" where
  "run evs s = fold step evs s"

text \<open>
  The pacing loop with a backend that always succeeds: while a tick is scheduled it
  fires, and the batch it dispatched is saved. The result is the number of ticks that
  fired and the state they leave.
\<close>

fun pacer :: "nat \<Rightarrow> limiter \<Rightarrow> nat \<times> limiter" where
  "pacer 0 s = (0, s)"
| "pacer (Suc fuel) s =
     (case pending s of
        [] \<Rightarrow> (0, s)
      | h # hs \<Rightarrow>
          let s1 = step (Fire h) s;
              s2 = step (BatchSaved (length (dispatches s))) s1;
              (k, s3) = pacer fuel s2
          in (Suc k, s3))"


section \<open>The sub-batches of a dispatch\<close>

declare saveInBatches_loop.simps [simp del]

lemma saveInBatches_loop_done: "saveInBatches_loop [] promises = promises"
  by (subst saveInBatches_loop.simps) simp

lemma saveInBatches_loop_again:
  "objects \<noteq> [] \<Longrightarrow>
   saveInBatches_loop objects promises =
     saveInBatches_loop (drop batchSize objects) (promises @ [take batchSize objects])"
  by (subst saveInBatches_loop.simps) simp

lemma saveInBatches_loop_concat:
  "concat (saveInBatches_loop objects promises) = concat promises @ objects"
proof (induction objects promises rule: saveInBatches_loop.induct)
  case (1 objects promises)
  show ?case
  proof (cases "objects = []")
    case True
    then show ?thesis by (simp add: saveInBatches_loop_done)
  next
    case False
    then have "concat (saveInBatches_loop objects promises) =
        concat (promises @ [take batchSize objects]) @ drop batchSize objects"
      using "1.IH" by (simp add: saveInBatches_loop_again)
    then show ?thesis by simp
  qed
qed

lemma saveInBatches_loop_sizes:
  "list_all (\<lambda>b. b \<noteq> [] \<and> length b \<le> batchSize) promises \<Longrightarrow>
   list_all (\<lambda>b. b \<noteq> [] \<and> length b \<le> batchSize) (saveInBatches_loop objects promises)"
proof (induction objects promises rule: saveInBatches_loop.induct)
  case (1 objects promises)
  show ?case
  proof (cases "objects = []")
    case True
    then show ?thesis using "1.prems" by (simp add: saveInBatches_loop_done)
  next
    case False
    then have "list_all (\<lambda>b. b \<noteq> [] \<and> length b \<le> batchSize)
        (promises @ [take batchSize objects])"
      using "1.prems" by (simp add: batchSize_def)
    from "1.IH"[OF False this] False show ?thesis
      by (simp add: saveInBatches_loop_again)
  qed
qed

lemma saveInBatches_loop_nth:
  "i < length (saveInBatches_loop objects promises) \<Longrightarrow>
   saveInBatches_loop objects promises ! i =
     (if i < length promises then promises ! i
      else take batchSize (drop (batchSize * (i - length promises)) objects))"
proof (induction objects promises rule: saveInBatches_loop.induct)
  case (1 objects promises)
  show ?case
  proof (cases "objects = []")
    case True
    then show ?thesis using "1.prems" by (simp add: saveInBatches_loop_done)
  next
    case False
    let ?acc = "promises @ [take batchSize objects]"
    have eq: "saveInBatches_loop objects promises =
        saveInBatches_loop (drop batchSize objects) ?acc"
      using False by (rule saveInBatches_loop_again)
    have i: "i < length (saveInBatches_loop (drop batchSize objects) ?acc)"
      using "1.prems" eq by simp
    note ih = "1.IH"[OF False i]
    consider "i < length promises" | "i = length promises" | "length promises < i"
      by linarith
    then show ?thesis
    proof cases
      case 1
      then show ?thesis using ih eq by (simp add: nth_append)
    next
      case 2
      then show ?thesis using ih eq by (simp add: nth_append)
    next
      case 3
      then obtain k where k: "i = Suc (length promises + k)"
        by (metis less_iff_Suc_add)
      then show ?thesis using ih eq by (simp add: nth_append add.commute)
    qed
  qed
qed

lemma saveInBatches_twelve:
  "saveInBatches (map ParseObject [0..<12]) =
     [map ParseObject [0..<10], [ParseObject 10, ParseObject 11]]"
  by code_simp

text \<open>
  C8. The sub-batches that \<^verbatim>\<open>saveInBatches\<close> hands to the backend are consecutive
  segments of its argument: joined in order they give the argument back, none is empty
  or longer than 10, and the \<open>i\<close>-th is the 10 items from position \<open>10 * i\<close> on.
\<close>

theorem saveInBatches_partitions:
  "concat (saveInBatches objects) = objects \<and>
   list_all (\<lambda>b. b \<noteq> [] \<and> length b \<le> 10) (saveInBatches objects) \<and>
   (\<forall>i < length (saveInBatches objects).
      saveInBatches objects ! i = take 10 (drop (10 * i) objects))"
proof (intro conjI allI impI)
  show "concat (saveInBatches objects) = objects"
    by (simp add: saveInBatches_def saveInBatches_loop_concat)
  show "list_all (\<lambda>b. b \<noteq> [] \<and> length b \<le> 10) (saveInBatches objects)"
    using saveInBatches_loop_sizes[of "[]" objects]
    by (simp add: saveInBatches_def batchSize_def)
  fix i assume "i < length (saveInBatches objects)"
  then show "saveInBatches objects ! i = take 10 (drop (10 * i) objects)"
    using saveInBatches_loop_nth[of i objects "[]"]
    by (simp add: saveInBatches_def batchSize_def)
qed

text \<open>C8 at twelve items: a sub-batch of ten, then one of two.\<close>

theorem saveInBatches_partitions_witness:
  "concat (saveInBatches (map ParseObject [0..<12])) = map ParseObject [0..<12] \<and>
   list_all (\<lambda>b. b \<noteq> [] \<and> length b \<le> 10) (saveInBatches (map ParseObject [0..<12])) \<and>
   Suc 0 < length (saveInBatches (map ParseObject [0..<12])) \<and>
   saveInBatches (map ParseObject [0..<12]) ! Suc 0 =
     take 10 (drop (10 * Suc 0) (map ParseObject [0..<12]))"
proof -
  have "Suc 0 < length (saveInBatches (map ParseObject [0..<12]))"
    by (simp add: saveInBatches_twelve)
  with saveInBatches_partitions[of "map ParseObject [0..<12]"] show ?thesis
    by blast
qed

section \<open>The halt procedure\<close>

lemma errHandler_halts: "killSwitch (snd (errHandler err s))"
  by (cases "timer s")
     (auto simp: errHandler_def reject_def Let_def split: option.splits)

text \<open>
  C7. \<^verbatim>\<open>errHandler\<close> is idempotent: a second invocation, with any error, returns
  normally and leaves the state of the first unchanged, the deferreds (and so a settled
  completion request) included.
\<close>

theorem errHandler_idempotent:
  "errHandler err' (snd (errHandler err s)) = (Inr (), snd (errHandler err s))"
proof -
  have "killSwitch (snd (errHandler err s))" by (rule errHandler_halts)
  then show ?thesis by (subst errHandler_def) simp
qed

section \<open>Enqueueing\<close>

text \<open>
  C4. \<^verbatim>\<open>saveAll\<close> is all-or-nothing: when it throws, the state is the one before the
  call; when it returns, the whole argument was appended; and it throws on every
  argument that is not an array.
\<close>

theorem saveAll_all_or_nothing:
  "(fst (saveAll objects s) = Inl e \<longrightarrow> snd (saveAll objects s) = s) \<and>
   (fst (saveAll objects s) = Inr u \<longrightarrow>
      snd (saveAll objects s) = s\<lparr>saveQueue := saveQueue s @ elements objects\<rparr>) \<and>
   (\<not> isArray objects \<longrightarrow> (\<exists>message. saveAll objects s = (Inl (Error message), s)))"
  by (simp add: saveAll_def Let_def split: option.splits)

text \<open>
  C4 on the array \<^verbatim>\<open>[A, "not-an-item", B]\<close>, with one item queued before the call.
\<close>

theorem saveAll_all_or_nothing_witness:
  "fst (saveAll (Array [ParseObject 1, JStr ''not-an-item'', ParseObject 2])
         ((ParseRateLimiter False 10)\<lparr>saveQueue := [ParseObject 0]\<rparr>)) =
     Inl (Error ''Cannot process item that is not a Parse object'') \<and>
   snd (saveAll (Array [ParseObject 1, JStr ''not-an-item'', ParseObject 2])
         ((ParseRateLimiter False 10)\<lparr>saveQueue := [ParseObject 0]\<rparr>)) =
     (ParseRateLimiter False 10)\<lparr>saveQueue := [ParseObject 0]\<rparr>"
proof -
  let ?s = "(ParseRateLimiter False 10)\<lparr>saveQueue := [ParseObject 0]\<rparr>"
  let ?xs = "Array [ParseObject 1, JStr ''not-an-item'', ParseObject 2]"
  have h: "fst (saveAll ?xs ?s) =
      Inl (Error ''Cannot process item that is not a Parse object'')"
    by (simp add: saveAll_def)
  from saveAll_all_or_nothing[of ?xs ?s "Error ''Cannot process item that is not a Parse object''"] h
  have "snd (saveAll ?xs ?s) = ?s" by blast
  with h show ?thesis by blast
qed

text \<open>
  C5. An array with an element that is not a \<^verbatim>\<open>Parse.Object\<close> is accepted when that
  element is falsy: \<^verbatim>\<open>saveAll([A, null, B])\<close> returns and queues all three values.
\<close>

theorem saveAll_falsy_item_accepted:
  "saveAll (Array [ParseObject 1, JNull, ParseObject 2]) (ParseRateLimiter ap r) =
     (Inr (), (ParseRateLimiter ap r)\<lparr>saveQueue := [ParseObject 1, JNull, ParseObject 2]\<rparr>)"
  by (simp add: saveAll_def ParseRateLimiter_def)

section \<open>Finalize\<close>

text \<open>
  C3. On a new instance (empty queue, no error stored, no dispatch issued)
  \<^verbatim>\<open>finalize\<close> throws a TypeError: \<^verbatim>\<open>savePromise\<close> is \<^verbatim>\<open>undefined\<close> where
  \<^verbatim>\<open>savePromise.then\<close> is read.
\<close>

theorem finalize_fresh_throws:
  "finalize (ParseRateLimiter ap r) = (Inl TypeError, ParseRateLimiter ap r)"
  by (simp add: finalize_def ParseRateLimiter_def)

section \<open>Reachable states\<close>

lemmas limiter_defs =
  run_def ParseRateLimiter_def save_def saveAll_def finalize_def startTimer_def
  setTimeout_def rateLimiter_def issue_def attach_def errHandler_def reject_def resolve_def
  deferred_def alreadySettled_def inFlight_def setJoined_def setPromise_def
  resolveFinalized_def runThens_def savePromiseResolved_def savePromiseRejected_def
  promiseOf_def Let_def

lemma saveInBatches_one: "saveInBatches [x] = [[x]]"
  by (simp add: saveInBatches_def saveInBatches_loop_again saveInBatches_loop_done
        batchSize_def)


















subsection \<open>Once halted\<close>

lemma halted_errHandler: "killSwitch s \<Longrightarrow> errHandler e s = (Inr (), s)"
  by (simp add: errHandler_def)



section \<open>The first halt\<close>




section \<open>After the halt\<close>

text \<open>
  C1. A tick that fires on a halted instance works all the same. After
  \<^verbatim>\<open>save(A); finalize()\<close>, the tick, the failure of its dispatch, then
  \<^verbatim>\<open>save(B); finalize()\<close>, the kill switch is set and a tick is scheduled again; when
  it fires it takes \<^verbatim>\<open>B\<close> off the queue and dispatches it.
\<close>

theorem tick_after_halt:
  "killSwitch (run [Save (ParseObject 1), Finalize, Fire 1, BatchFailed 0 (JObject 7),
                    Save (ParseObject 2), Finalize] (ParseRateLimiter ap 10)) \<and>
   pending (run [Save (ParseObject 1), Finalize, Fire 1, BatchFailed 0 (JObject 7),
                    Save (ParseObject 2), Finalize] (ParseRateLimiter ap 10)) = [2] \<and>
   saveQueue (run [Save (ParseObject 1), Finalize, Fire 1, BatchFailed 0 (JObject 7),
                    Save (ParseObject 2), Finalize] (ParseRateLimiter ap 10)) =
     [ParseObject 2] \<and>
   saveQueue (run [Save (ParseObject 1), Finalize, Fire 1, BatchFailed 0 (JObject 7),
                    Save (ParseObject 2), Finalize, Fire 2] (ParseRateLimiter ap 10)) = [] \<and>
   map sent (dispatches
       (run [Save (ParseObject 1), Finalize, Fire 1, BatchFailed 0 (JObject 7),
             Save (ParseObject 2), Finalize, Fire 2] (ParseRateLimiter ap 10))) =
     [[[ParseObject 1]], [[ParseObject 2]]]"
  by (simp add: limiter_defs saveInBatches_one)

text \<open>
  C10, as stated, fails: on the instance halted by the failure of its only dispatch,
  \<^verbatim>\<open>save(B)\<close> returns normally and the queue, empty before, holds \<^verbatim>\<open>B\<close>.
\<close>

theorem save_when_halted_counterexample:
  "killSwitch (run [Save (ParseObject 1), Finalize, Fire 1, BatchFailed 0 (JObject 7)]
                 (ParseRateLimiter False 10)) \<and>
   saveQueue (run [Save (ParseObject 1), Finalize, Fire 1, BatchFailed 0 (JObject 7)]
                 (ParseRateLimiter False 10)) = [] \<and>
   fst (save (ParseObject 2)
          (run [Save (ParseObject 1), Finalize, Fire 1, BatchFailed 0 (JObject 7)]
             (ParseRateLimiter False 10))) = Inr () \<and>
   saveQueue (snd (save (ParseObject 2)
          (run [Save (ParseObject 1), Finalize, Fire 1, BatchFailed 0 (JObject 7)]
             (ParseRateLimiter False 10)))) = [ParseObject 2]"
  by (simp add: limiter_defs saveInBatches_one)

text \<open>
  C10, amended. On a halted instance \<^verbatim>\<open>save\<close> of a Parse object does what it does on
  any other: it returns normally and appends the object to the queue, changing
  nothing else.
\<close>

theorem save_when_halted:
  "killSwitch s \<Longrightarrow> instanceofParseObject object \<Longrightarrow>
   save object s = (Inr (), s\<lparr>saveQueue := saveQueue s @ [object]\<rparr>)"
  by (simp add: save_def)

text \<open>C10, amended, on the instance halted by the failure of its only dispatch.\<close>

theorem save_when_halted_witness:
  "killSwitch (run [Save (ParseObject 1), Finalize, Fire 1, BatchFailed 0 (JObject 7)]
                 (ParseRateLimiter False 10)) \<and>
   instanceofParseObject (ParseObject 2) \<and>
   save (ParseObject 2)
     (run [Save (ParseObject 1), Finalize, Fire 1, BatchFailed 0 (JObject 7)]
        (ParseRateLimiter False 10)) =
   (Inr (),
    (run [Save (ParseObject 1), Finalize, Fire 1, BatchFailed 0 (JObject 7)]
       (ParseRateLimiter False 10))
    \<lparr>saveQueue :=
       saveQueue (run [Save (ParseObject 1), Finalize, Fire 1, BatchFailed 0 (JObject 7)]
                    (ParseRateLimiter False 10)) @ [ParseObject 2]\<rparr>)"
proof -
  let ?s = "run [Save (ParseObject 1), Finalize, Fire 1, BatchFailed 0 (JObject 7)]
              (ParseRateLimiter False 10)"
  have h: "killSwitch ?s" by (simp add: limiter_defs saveInBatches_one)
  have i: "instanceofParseObject (ParseObject 2)" by simp
  from save_when_halted[OF h i] h i show ?thesis by blast
qed

section \<open>Finalize after a failure\<close>












section \<open>The pacing loop\<close>

lemma ceil_suc:
  assumes "0 < r" and "0 < n"
  shows "(n + r - 1) div r = Suc ((n - 1) div r)"
proof -
  obtain m where m: "n = Suc m" using assms(2) by (cases n) auto
  show ?thesis unfolding m using assms(1) by simp
qed

lemma pacer_idle: "pending s = [] \<Longrightarrow> pacer fuel s = (0, s)"
  by (cases fuel) simp_all

lemma map_sent_update:
  "sent y = sent (ds ! d) \<Longrightarrow> map sent (ds[d := y]) = map sent ds"
  by (induction ds arbitrary: d) (auto split: nat.splits)

lemma saved_fields:
  shows "saveQueue (step (BatchSaved d) s) = saveQueue s"
    and "maxRate (step (BatchSaved d) s) = maxRate s"
    and "pending (step (BatchSaved d) s) = pending s"
    and "killswitch (step (BatchSaved d) s) = killswitch s"
    and "map sent (dispatches (step (BatchSaved d) s)) = map sent (dispatches s)"
  by (auto simp: inFlight_def setJoined_def setPromise_def resolveFinalized_def
           resolve_def runThens_def savePromiseResolved_def Let_def split_beta
           map_sent_update split: option.splits sum.splits)

lemma attach_fields:
  "saveQueue (attach d s) = saveQueue s \<and> toSave (attach d s) = toSave s \<and>
   maxRate (attach d s) = maxRate s \<and> killswitch (attach d s) = killswitch s \<and>
   pending (attach d s) = pending s \<and>
   map sent (dispatches (attach d s)) = map sent (dispatches s)"
  by (simp add: attach_def map_sent_update)

lemma rateLimiter_fields:
  assumes "\<not> killswitch s" "saveQueue s \<noteq> []"
  shows "saveQueue (rateLimiter s) = drop (maxRate s) (saveQueue s)"
    and "toSave (rateLimiter s) = Some (take (maxRate s) (saveQueue s))"
    and "maxRate (rateLimiter s) = maxRate s"
    and "\<not> killswitch (rateLimiter s)"
    and "map sent (dispatches (rateLimiter s)) =
           map sent (dispatches s) @ [saveInBatches (take (maxRate s) (saveQueue s))]"
    and "pending (rateLimiter s) =
           (if drop (maxRate s) (saveQueue s) = [] then pending s
            else pending s @ [nextHandle s])"
  using assms
  by (simp_all add: rateLimiter_def issue_def setTimeout_def Let_def attach_fields
        split: option.splits)

lemma tick_fields:
  assumes "pending s = [h]" "\<not> killswitch s" "saveQueue s \<noteq> []"
  shows "saveQueue (step (Fire h) s) = drop (maxRate s) (saveQueue s)"
    and "toSave (step (Fire h) s) = Some (take (maxRate s) (saveQueue s))"
    and "maxRate (step (Fire h) s) = maxRate s"
    and "\<not> killswitch (step (Fire h) s)"
    and "map sent (dispatches (step (Fire h) s)) =
           map sent (dispatches s) @ [saveInBatches (take (maxRate s) (saveQueue s))]"
    and "pending (step (Fire h) s) =
           (if drop (maxRate s) (saveQueue s) = [] then [] else [nextHandle s])"
proof -
  let ?t = "s\<lparr>pending := []\<rparr>"
  have st: "step (Fire h) s = rateLimiter ?t" using assms(1) by simp
  have k: "\<not> killswitch ?t" and q: "saveQueue ?t \<noteq> []" using assms(2,3) by simp_all
  note rf = rateLimiter_fields[OF k q]
  show "saveQueue (step (Fire h) s) = drop (maxRate s) (saveQueue s)"
    unfolding st using rf(1) by simp
  show "toSave (step (Fire h) s) = Some (take (maxRate s) (saveQueue s))"
    unfolding st using rf(2) by simp
  show "maxRate (step (Fire h) s) = maxRate s"
    unfolding st using rf(3) by simp
  show "\<not> killswitch (step (Fire h) s)"
    unfolding st using rf(4) by simp
  show "map sent (dispatches (step (Fire h) s)) =
           map sent (dispatches s) @ [saveInBatches (take (maxRate s) (saveQueue s))]"
    unfolding st using rf(5) by simp
  show "pending (step (Fire h) s) =
           (if drop (maxRate s) (saveQueue s) = [] then [] else [nextHandle s])"
    unfolding st using rf(6) by simp
qed

lemma pacer_fire:
  "pending s = [h] \<Longrightarrow>
   pacer (Suc fuel) s =
     (Suc (fst (pacer fuel (step (BatchSaved (length (dispatches s))) (step (Fire h) s)))),
      snd (pacer fuel (step (BatchSaved (length (dispatches s))) (step (Fire h) s))))"
  by (simp add: Let_def split_beta del: step.simps)

lemma pacer_drains_aux:
  "0 < maxRate s \<Longrightarrow> saveQueue s \<noteq> [] \<Longrightarrow> pending s = [h] \<Longrightarrow> \<not> killswitch s \<Longrightarrow>
   (length (saveQueue s) + maxRate s - 1) div maxRate s \<le> fuel \<Longrightarrow>
   fst (pacer fuel s) = (length (saveQueue s) + maxRate s - 1) div maxRate s \<and>
   saveQueue (snd (pacer fuel s)) = [] \<and>
   pending (snd (pacer fuel s)) = [] \<and>
   map sent (dispatches (snd (pacer fuel s))) =
     map sent (dispatches s) @
     map (\<lambda>k. saveInBatches (take (maxRate s) (drop (k * maxRate s) (saveQueue s))))
       [0..<(length (saveQueue s) + maxRate s - 1) div maxRate s]"
proof (induction fuel arbitrary: s h)
  case 0
  from 0(2) have "0 < length (saveQueue s)" by simp
  from ceil_suc[OF 0(1) this] 0(5) show ?case by simp
next
  case (Suc fuel)
  define r where "r = maxRate s"
  define q where "q = saveQueue s"
  define s2 where "s2 = step (BatchSaved (length (dispatches s))) (step (Fire h) s)"
  define c where "c = (length (drop r q) + r - 1) div r"
  note tf = tick_fields[OF Suc.prems(3,4,2)]
  note sf = saved_fields[of "length (dispatches s)" "step (Fire h) s"]
  have r0: "0 < r" using Suc.prems(1) by (simp add: r_def)
  have n: "0 < length q" using Suc.prems(2) by (simp add: q_def)
  have unfold: "pacer (Suc fuel) s = (Suc (fst (pacer fuel s2)), snd (pacer fuel s2))"
    unfolding s2_def using Suc.prems(3) by (rule pacer_fire)
  have q2: "saveQueue s2 = drop r q"
    unfolding s2_def r_def q_def by (rule trans[OF sf(1) tf(1)])
  have r2: "maxRate s2 = r"
    unfolding s2_def r_def by (rule trans[OF sf(2) tf(3)])
  have k2: "\<not> killswitch s2"
    unfolding s2_def sf(4) by (rule tf(4))
  have d2: "map sent (dispatches s2) = map sent (dispatches s) @ [saveInBatches (take r q)]"
    unfolding s2_def r_def q_def by (rule trans[OF sf(5) tf(5)])
  have p2: "pending s2 = (if drop r q = [] then [] else [nextHandle s])"
    unfolding s2_def r_def q_def by (rule trans[OF sf(3) tf(6)])
  show ?case
  proof (cases "drop r q = []")
    case True
    then have le: "length q \<le> r" by simp
    have one: "(length q + r - 1) div r = 1"
    proof -
      from le n have "length q - 1 < r" by linarith
      then have "(length q - 1) div r = 0" by simp
      with ceil_suc[OF r0 n] show ?thesis by simp
    qed
    from True p2 have idle: "pacer fuel s2 = (0, s2)" by (simp add: pacer_idle)
    have res: "pacer (Suc fuel) s = (Suc 0, s2)"
      unfolding unfold idle by (simp only: fst_conv snd_conv)
    have "fst (pacer (Suc fuel) s) = (length q + r - 1) div r"
      unfolding res one by simp
    moreover have "saveQueue (snd (pacer (Suc fuel) s)) = []"
      unfolding res using q2 True by simp
    moreover have "pending (snd (pacer (Suc fuel) s)) = []"
      unfolding res using p2 True by simp
    moreover have "map sent (dispatches (snd (pacer (Suc fuel) s))) =
        map sent (dispatches s) @
        map (\<lambda>k. saveInBatches (take r (drop (k * r) q))) [0..<(length q + r - 1) div r]"
      unfolding res one using d2 by simp
    ultimately show ?thesis unfolding r_def q_def by blast
  next
    case False
    then have gt: "r < length q" by simp
    have cs: "(length q + r - 1) div r = Suc c"
    proof -
      have "length (drop r q) + r - 1 = length q - 1" using gt by simp
      then have "c = (length q - 1) div r" unfolding c_def by (rule arg_cong)
      with ceil_suc[OF r0 n] show ?thesis by (simp only:)
    qed
    have fuel: "(length (saveQueue s2) + maxRate s2 - 1) div maxRate s2 \<le> fuel"
    proof -
      from Suc.prems(5) have "(length q + r - 1) div r \<le> Suc fuel"
        unfolding r_def q_def .
      then have "c \<le> fuel" unfolding cs by simp
      then show ?thesis unfolding q2 r2 c_def .
    qed
    have ne: "saveQueue s2 \<noteq> []" using False q2 by simp
    have pe: "pending s2 = [nextHandle s]" using False p2 by simp
    have r02: "0 < maxRate s2" using r2 r0 by simp
    note ih = Suc.IH[OF r02 ne pe k2 fuel, unfolded q2 r2, folded c_def]
    have shift: "map (\<lambda>k. saveInBatches (take r (drop (k * r) q))) [0..<Suc c] =
        saveInBatches (take r q) #
        map (\<lambda>k. saveInBatches (take r (drop (k * r) (drop r q)))) [0..<c]"
      by (simp only: map_upt_Suc) (simp add: add.commute)
    have "fst (pacer (Suc fuel) s) = (length q + r - 1) div r"
      unfolding unfold cs using ih by simp
    moreover have "saveQueue (snd (pacer (Suc fuel) s)) = []"
      unfolding unfold using ih by simp
    moreover have "pending (snd (pacer (Suc fuel) s)) = []"
      unfolding unfold using ih by simp
    moreover have "map sent (dispatches (snd (pacer (Suc fuel) s))) =
        map sent (dispatches s) @
        map (\<lambda>k. saveInBatches (take r (drop (k * r) q))) [0..<(length q + r - 1) div r]"
      unfolding unfold cs shift using ih d2 by simp
    ultimately show ?thesis unfolding r_def q_def by blast
  qed
qed

lemma ceil_real:
  assumes r: "0 < r"
  shows "nat \<lceil>real n / real r\<rceil> = (n + r - 1) div r"
proof -
  let ?C = "(n + r - 1) div r"
  have up: "n \<le> ?C * r"
  proof -
    have "n + r - 1 < r + ?C * r" using r by (rule dividend_less_div_times)
    then show ?thesis using r by linarith
  qed
  have lo: "?C * r < n + r"
  proof -
    have "?C * r \<le> n + r - 1" by (rule div_times_less_eq_dividend)
    moreover have "n + r - 1 < n + r" using r by simp
    ultimately show ?thesis by (rule le_less_trans)
  qed
  have a: "real n / real r \<le> of_int (int ?C)"
  proof -
    from up have "real n \<le> real (?C * r)" by (simp only: of_nat_le_iff)
    then show ?thesis using r by (simp add: pos_divide_le_eq)
  qed
  have b: "of_int (int ?C) - 1 < real n / real r"
  proof -
    from lo have "real (?C * r) < real (n + r)" by (simp only: of_nat_less_iff)
    then have "(real ?C - 1) * real r < real n" by (simp add: algebra_simps)
    then show ?thesis using r by (simp add: pos_less_divide_eq)
  qed
  from b a have "\<lceil>real n / real r\<rceil> = int ?C" by (rule ceiling_unique)
  then show ?thesis by simp
qed

text \<open>
  C9. Take a state with a positive \<^verbatim>\<open>maxRate\<close> \<open>r\<close>, a queue of \<open>n > 0\<close> items and one
  tick scheduled. The tick removes exactly the first \<open>min r n\<close> items, as its slice.
  With a backend that always succeeds, the pacing loop fires exactly \<open>\<lceil>n / r\<rceil>\<close> ticks
  (given that much fuel or more) and leaves the queue empty and no tick scheduled; the
  \<open>k\<close>-th tick dispatches the \<open>r\<close> items from position \<open>k * r\<close> on, in their
  sub-batches.
\<close>

theorem pacer_drains:
  assumes "0 < maxRate s" and "saveQueue s \<noteq> []" and "pending s = [h]"
    and "\<not> killswitch s"
    and "nat \<lceil>real (length (saveQueue s)) / real (maxRate s)\<rceil> \<le> fuel"
  shows
    "toSave (step (Fire h) s) =
       Some (take (min (maxRate s) (length (saveQueue s))) (saveQueue s)) \<and>
     saveQueue (step (Fire h) s) =
       drop (min (maxRate s) (length (saveQueue s))) (saveQueue s) \<and>
     fst (pacer fuel s) = nat \<lceil>real (length (saveQueue s)) / real (maxRate s)\<rceil> \<and>
     saveQueue (snd (pacer fuel s)) = [] \<and>
     pending (snd (pacer fuel s)) = [] \<and>
     map sent (dispatches (snd (pacer fuel s))) =
       map sent (dispatches s) @
       map (\<lambda>k. saveInBatches (take (maxRate s) (drop (k * maxRate s) (saveQueue s))))
         [0..<nat \<lceil>real (length (saveQueue s)) / real (maxRate s)\<rceil>]"
proof -
  note c = ceil_real[OF assms(1), of "length (saveQueue s)"]
  note tf = tick_fields[OF assms(3,4,2)]
  have 1: "toSave (step (Fire h) s) =
       Some (take (min (maxRate s) (length (saveQueue s))) (saveQueue s))"
    unfolding tf(2) by (simp add: min_def)
  have 2: "saveQueue (step (Fire h) s) =
       drop (min (maxRate s) (length (saveQueue s))) (saveQueue s)"
    unfolding tf(1) by (simp add: min_def)
  from assms(5) have f: "(length (saveQueue s) + maxRate s - 1) div maxRate s \<le> fuel"
    unfolding c .
  from pacer_drains_aux[OF assms(1,2,3,4) f] 1 2 show ?thesis
    unfolding c by blast
qed

text \<open>
  C9 at \<^verbatim>\<open>maxRate = 2\<close> and five items, after \<^verbatim>\<open>saveAll\<close> and \<^verbatim>\<open>finalize\<close>: three
  ticks.
\<close>

theorem pacer_drains_witness:
  "0 < maxRate (run [SaveAll (Array (map ParseObject [1, 2, 3, 4, 5])), Finalize]
                  (ParseRateLimiter False 2)) \<and>
   saveQueue (run [SaveAll (Array (map ParseObject [1, 2, 3, 4, 5])), Finalize]
                  (ParseRateLimiter False 2)) = map ParseObject [1, 2, 3, 4, 5] \<and>
   pending (run [SaveAll (Array (map ParseObject [1, 2, 3, 4, 5])), Finalize]
                  (ParseRateLimiter False 2)) = [1] \<and>
   \<not> killswitch (run [SaveAll (Array (map ParseObject [1, 2, 3, 4, 5])), Finalize]
                  (ParseRateLimiter False 2)) \<and>
   fst (pacer 3 (run [SaveAll (Array (map ParseObject [1, 2, 3, 4, 5])), Finalize]
                  (ParseRateLimiter False 2))) = 3 \<and>
   saveQueue (snd (pacer 3 (run [SaveAll (Array (map ParseObject [1, 2, 3, 4, 5])), Finalize]
                  (ParseRateLimiter False 2)))) = [] \<and>
   pending (snd (pacer 3 (run [SaveAll (Array (map ParseObject [1, 2, 3, 4, 5])), Finalize]
                  (ParseRateLimiter False 2)))) = []"
proof -
  let ?s = "run [SaveAll (Array (map ParseObject [1, 2, 3, 4, 5])), Finalize]
              (ParseRateLimiter False 2)"
  have m: "maxRate ?s = 2" and q: "saveQueue ?s = map ParseObject [1, 2, 3, 4, 5]"
    and p: "pending ?s = [1]" and k: "\<not> killswitch ?s"
    by (simp_all add: limiter_defs)
  have c: "nat \<lceil>real (length (saveQueue ?s)) / real (maxRate ?s)\<rceil> = 3"
    unfolding m q by simp
  have h1: "0 < maxRate ?s" unfolding m by simp
  have h2: "saveQueue ?s \<noteq> []" unfolding q by simp
  have h5: "nat \<lceil>real (length (saveQueue ?s)) / real (maxRate ?s)\<rceil> \<le> 3"
    unfolding c by simp
  note r = pacer_drains[OF h1 h2 p k h5, unfolded c]
  from r h1 q p k show ?thesis by blast
qed

end
